theory Spec2Isabelle
  imports Main "HOL-Library.AList"
begin

section \<open>Values, errors and the environment\<close>

text \<open>
  The utilities of \<^verbatim>\<open>great_expectations/data_context/util.py\<close> work on untyped
  configuration data. A value is one of the shapes the functions tell apart with
  \<^verbatim>\<open>is None\<close> and \<^verbatim>\<open>isinstance\<close>: the no-value sentinel, a string, a list, a
  dictionary, or some other scalar (booleans and integers stand for these).
  A dictionary is an association list in insertion order, looked up with \<open>map_of\<close>.
\<close>

datatype pyval =
    VNone
  | VBool bool
  | VInt int
  | VStr string
  | VList "pyval list"
  | VDict "(string \<times> pyval) list"
  | VDataContextConfig "(string \<times> pyval) list"

type_synonym dict = "(string \<times> pyval) list"

text \<open>
  Every \<^verbatim>\<open>raise\<close> of the module, and every exception a library call raises on the
  inputs modelled here, is a value of \<open>error\<close>. Line 195 raises a bare
  \<^verbatim>\<open>Exception\<close> for a non-string substitution with surrounding text; it is the
  constructor \<open>UnsupportedSubstitution\<close>. \<open>Raised\<close> is an exception of one of the
  external collaborators (the class loader, a constructor).
\<close>

datatype error =
    KeyError string
  | TypeError
  | MissingConfigVariableError string
  | UnsupportedSubstitution
  | Raised string

text \<open>The process environment read by \<^verbatim>\<open>os.getenv\<close>, and the variable store.\<close>

type_synonym environ = "string \<rightharpoonup> string"
type_synonym config_variables = "string \<rightharpoonup> pyval"

section \<open>The placeholder finder\<close>

text \<open>
  \<^verbatim>\<open>re.finditer(r"\$\{(.*?)\}|\$([_a-zA-Z][_a-zA-Z0-9]*)", template_str)\<close>:
  the two character classes of the pattern.
\<close>

definition is_name_start :: "char \<Rightarrow> bool" where
  "is_name_start c \<longleftrightarrow>
     c \<in> set ''_abcdefghijklmnopqrstuvwxyzABCDEFGHIJKLMNOPQRSTUVWXYZ''"

definition is_name_char :: "char \<Rightarrow> bool" where
  "is_name_char c \<longleftrightarrow> is_name_start c \<or> c \<in> set ''0123456789''"

text \<open>
  The group \<^verbatim>\<open>(.*?)\}\<close> after \<^verbatim>\<open>${\<close>: the lazy star takes one character at
  a time until a closing brace follows; the dot does not match a line feed, so a line
  feed before the first closing brace makes the alternative fail. The result is the
  number of characters the group takes.
\<close>

fun brace_body :: "string \<Rightarrow> nat option" where
  "brace_body [] = None"
| "brace_body (c # cs) =
     (if c = CHR ''}'' then Some 0
      else if c = CHR 0x0A then None
      else map_option Suc (brace_body cs))"

text \<open>The two alternatives, anchored at the head of the string: the length matched.\<close>

definition match_brace :: "string \<Rightarrow> nat option" where
  "match_brace s =
     (case s of
        c # d # body \<Rightarrow>
          if c = CHR ''$'' \<and> d = CHR ''{''
          then map_option (\<lambda>n. n + 3) (brace_body body) else None
      | _ \<Rightarrow> None)"

definition match_bare :: "string \<Rightarrow> nat option" where
  "match_bare s =
     (case s of
        c # d # ds \<Rightarrow>
          if c = CHR ''$'' \<and> is_name_start d
          then Some (2 + length (takeWhile is_name_char ds)) else None
      | _ \<Rightarrow> None)"

definition match_at :: "string \<Rightarrow> nat option" where
  "match_at s = (case match_brace s of Some n \<Rightarrow> Some n | None \<Rightarrow> match_bare s)"

text \<open>
  The scan of \<^verbatim>\<open>finditer\<close>: at each position the pattern is tried; after a
  match the scan goes on behind it, otherwise one character further. \<open>pos\<close> is the
  offset of the string that is left in the whole template. The result is the list of
  the spans \<^verbatim>\<open>(match.start(), match.end())\<close>.
\<close>

fun finditer :: "nat \<Rightarrow> string \<Rightarrow> (nat \<times> nat) list" where
  "finditer pos [] = []"
| "finditer pos (c # rest) =
     (case match_at (c # rest) of
        Some n \<Rightarrow> (pos, pos + n) # finditer (pos + n) (drop (n - 1) rest)
      | None \<Rightarrow> finditer (pos + 1) rest)"

record candidate =
  match :: string
  clean_match :: string
  start :: nat
  end_offset :: nat

text \<open>\<^verbatim>\<open>str.replace(x, "")\<close> for a single character \<open>x\<close>.\<close>

definition remove_char :: "char \<Rightarrow> string \<Rightarrow> string" where
  "remove_char x s = filter (\<lambda>c. c \<noteq> x) s"

definition find_substitution_candidates :: "string \<Rightarrow> candidate list" where
  "find_substitution_candidates template_str =
     map (\<lambda>(s, e).
            let dirty_match = take (e - s) (drop s template_str);
                clean = remove_char (CHR ''}'')
                          (remove_char (CHR ''{'') (remove_char (CHR ''$'') dirty_match))
            in \<lparr>match = dirty_match, clean_match = clean, start = s, end_offset = e\<rparr>)
         (finditer 0 template_str)"

section \<open>Substitution in one string\<close>

text \<open>
  \<^verbatim>\<open>env_variable = os.getenv(name)\<close> followed by \<^verbatim>\<open>if env_variable:\<close>: the
  value counts only when the variable is set and not the empty string.
\<close>

definition getenv_truthy :: "environ \<Rightarrow> string \<Rightarrow> string option" where
  "getenv_truthy env name =
     (case env name of
        None \<Rightarrow> None
      | Some v \<Rightarrow> if v = [] then None else Some v)"

text \<open>
  \<^verbatim>\<open>template_str[:start] + value + template_str[end:]\<close>; Python's slices clamp to
  the length of the string, as \<open>take\<close> and \<open>drop\<close> do.
\<close>

definition splice_str :: "string \<Rightarrow> candidate \<Rightarrow> string \<Rightarrow> string" where
  "splice_str template_str c v =
     take (start c) template_str @ v @ drop (end_offset c) template_str"

text \<open>
  The same expression with a value of the variable store, which the many-candidates
  branch does not test: \<^verbatim>\<open>str + value\<close> raises \<^verbatim>\<open>TypeError\<close> unless the
  value is a string.
\<close>

definition splice_value :: "string \<Rightarrow> candidate \<Rightarrow> pyval \<Rightarrow> error + string" where
  "splice_value template_str c v =
     (case v of
        VStr s \<Rightarrow> Inr (splice_str template_str c s)
      | _ \<Rightarrow> Inl TypeError)"

text \<open>
  The \<^verbatim>\<open>while len(substitution_candidates) > 0\<close> loop of lines 219 to 250. It need
  not end (a stored value may contain its own placeholder), so not returning is the
  value \<open>None\<close>. After a splice from the variable store the
  candidates are found again in the new string; after a splice from the environment
  the queue is kept as it is.
\<close>

partial_function (option) substitution_loop ::
  "environ \<Rightarrow> config_variables \<Rightarrow> candidate list \<Rightarrow> string \<Rightarrow> (error + pyval) option"
where
  "substitution_loop env config_variables_dict substitution_candidates template_str =
     (case substitution_candidates of
        [] \<Rightarrow> Some (Inr (VStr template_str))
      | c # queue \<Rightarrow>
          (case getenv_truthy env (clean_match c) of
             Some env_variable \<Rightarrow>
               substitution_loop env config_variables_dict queue
                 (splice_str template_str c env_variable)
           | None \<Rightarrow>
               (case config_variables_dict (clean_match c) of
                  Some v \<Rightarrow>
                    (case splice_value template_str c v of
                       Inl e \<Rightarrow> Some (Inl e)
                     | Inr spliced \<Rightarrow>
                         substitution_loop env config_variables_dict
                           (find_substitution_candidates spliced) spliced)
                | None \<Rightarrow> Some (Inl (MissingConfigVariableError (clean_match c))))))"

declare substitution_loop.simps [code]

text \<open>
  The same loop, one iteration at a time: the queue and the string after \<open>n\<close>
  iterations, that is, at the moment the loop tests its condition for the next one.
  The value is \<open>None\<close> when the loop has ended before, by leaving through its
  condition or by an exception.
\<close>

fun loop_state ::
  "environ \<Rightarrow> config_variables \<Rightarrow> nat \<Rightarrow> candidate list \<Rightarrow> string
     \<Rightarrow> (candidate list \<times> string) option"
where
  "loop_state env config_variables_dict 0 substitution_candidates template_str =
     Some (substitution_candidates, template_str)"
| "loop_state env config_variables_dict (Suc n) substitution_candidates template_str =
     (case substitution_candidates of
        [] \<Rightarrow> None
      | c # queue \<Rightarrow>
          (case getenv_truthy env (clean_match c) of
             Some env_variable \<Rightarrow>
               loop_state env config_variables_dict n queue
                 (splice_str template_str c env_variable)
           | None \<Rightarrow>
               (case config_variables_dict (clean_match c) of
                  Some v \<Rightarrow>
                    (case splice_value template_str c v of
                       Inl e \<Rightarrow> None
                     | Inr spliced \<Rightarrow>
                         loop_state env config_variables_dict n
                           (find_substitution_candidates spliced) spliced)
                | None \<Rightarrow> None)))"

text \<open>
  \<^verbatim>\<open>substitute_config_variable\<close>. \<^verbatim>\<open>re.finditer\<close> raises \<^verbatim>\<open>TypeError\<close> on
  a template that is neither a string nor \<^verbatim>\<open>None\<close>. With exactly one candidate the
  candidate is popped, so the loop that follows starts on an empty queue; the re-scan
  of this branch is commented out in the source (lines 204 to 206).
\<close>

definition substitute_config_variable ::
  "environ \<Rightarrow> config_variables \<Rightarrow> pyval \<Rightarrow> (error + pyval) option"
where
  "substitute_config_variable env config_variables_dict template_str =
     (case template_str of
        VNone \<Rightarrow> Some (Inr VNone)
      | VStr t \<Rightarrow>
          (case find_substitution_candidates t of
             [c] \<Rightarrow>
               (case getenv_truthy env (clean_match c) of
                  Some env_variable \<Rightarrow>
                    substitution_loop env config_variables_dict []
                      (splice_str t c env_variable)
                | None \<Rightarrow>
                    (case config_variables_dict (clean_match c) of
                       Some (VStr s) \<Rightarrow>
                         substitution_loop env config_variables_dict [] (splice_str t c s)
                     | Some v \<Rightarrow>
                         if match c = t then Some (Inr v)
                         else Some (Inl UnsupportedSubstitution)
                     | None \<Rightarrow>
                         Some (Inl (MissingConfigVariableError (clean_match c)))))
           | cs \<Rightarrow> substitution_loop env config_variables_dict cs t)
      | _ \<Rightarrow> Some (Inl TypeError))"

section \<open>Substitution in a nested structure\<close>

text \<open>
  \<^verbatim>\<open>substitute_all_config_variables\<close>: a dictionary comprehension over the
  items, a list comprehension over the elements, and \<^verbatim>\<open>substitute_config_variable\<close>
  on everything else. The first item or element that raises ends the comprehension.

  Modelled from the spec: \<^verbatim>\<open>DataContextConfig\<close> and its schema are imported from
  \<^verbatim>\<open>data_context/types/base.py\<close>; a structured configuration object
  \<open>VDataContextConfig kvs\<close> is flattened by \<^verbatim>\<open>dump\<close> into the plain dictionary
  \<open>kvs\<close> before the recursion begins.
\<close>

fun substitute_all_config_variables ::
      "environ \<Rightarrow> config_variables \<Rightarrow> pyval \<Rightarrow> (error + pyval) option"
  and substitute_items ::
      "environ \<Rightarrow> config_variables \<Rightarrow> dict \<Rightarrow> (error + dict) option"
  and substitute_elements ::
      "environ \<Rightarrow> config_variables \<Rightarrow> pyval list \<Rightarrow> (error + pyval list) option"
where
  "substitute_all_config_variables env d (VDataContextConfig kvs) =
     map_option (map_sum id VDict) (substitute_items env d kvs)"
| "substitute_all_config_variables env d (VDict kvs) =
     map_option (map_sum id VDict) (substitute_items env d kvs)"
| "substitute_all_config_variables env d (VList vs) =
     map_option (map_sum id VList) (substitute_elements env d vs)"
| "substitute_all_config_variables env d VNone = substitute_config_variable env d VNone"
| "substitute_all_config_variables env d (VBool b) =
     substitute_config_variable env d (VBool b)"
| "substitute_all_config_variables env d (VInt i) =
     substitute_config_variable env d (VInt i)"
| "substitute_all_config_variables env d (VStr t) =
     substitute_config_variable env d (VStr t)"
| "substitute_items env d [] = Some (Inr [])"
| "substitute_items env d ((k, v) # kvs) =
     (case substitute_all_config_variables env d v of
        None \<Rightarrow> None
      | Some (Inl e) \<Rightarrow> Some (Inl e)
      | Some (Inr v') \<Rightarrow>
          (case substitute_items env d kvs of
             None \<Rightarrow> None
           | Some (Inl e) \<Rightarrow> Some (Inl e)
           | Some (Inr kvs') \<Rightarrow> Some (Inr ((k, v') # kvs'))))"
| "substitute_elements env d [] = Some (Inr [])"
| "substitute_elements env d (v # vs) =
     (case substitute_all_config_variables env d v of
        None \<Rightarrow> None
      | Some (Inl e) \<Rightarrow> Some (Inl e)
      | Some (Inr v') \<Rightarrow>
          (case substitute_elements env d vs of
             None \<Rightarrow> None
           | Some (Inl e) \<Rightarrow> Some (Inl e)
           | Some (Inr vs') \<Rightarrow> Some (Inr (v' # vs'))))"

section \<open>The class instantiator\<close>

text \<open>
  The class loader, the reflection on the constructor and the constructor itself are
  outside the module (\<^verbatim>\<open>great_expectations.util\<close>, \<^verbatim>\<open>inspect\<close>, the loaded
  class); they are parameters of the model. \<open>getfullargspec_init\<close> is
  \<^verbatim>\<open>inspect.getfullargspec(class_.__init__)[0]\<close>, the parameter names with the
  implicit first one. The calls the function makes are recorded in order.
\<close>

record ('c, 'i) collaborators =
  verify_dynamic_loading_support :: "pyval \<Rightarrow> error option"
  load_class :: "pyval \<Rightarrow> pyval \<Rightarrow> error + 'c"
  getfullargspec_init :: "'c \<Rightarrow> string list"
  call_class :: "'c \<Rightarrow> dict \<Rightarrow> error + 'i"

datatype event =
    VerifyCall pyval
  | LogWarning
  | LoadClassCall pyval pyval
  | ConstructCall dict

text \<open>
  What the caller observes: its two mapping objects after the call, the calls made,
  and the instance returned or the exception raised. \<open>config_defaults_after\<close> is
  \<open>None\<close> when the caller passed no defaults mapping.
\<close>

record 'i outcome =
  config_after :: dict
  config_defaults_after :: "dict option"
  calls :: "event list"
  returned :: "error + 'i"

text \<open>\<^verbatim>\<open>d.pop(key, None)\<close>: the value (or \<^verbatim>\<open>None\<close>) and the dictionary left.\<close>

definition pop_default :: "string \<Rightarrow> dict \<Rightarrow> pyval \<times> dict" where
  "pop_default key d =
     ((case map_of d key of Some v \<Rightarrow> v | None \<Rightarrow> VNone), AList.delete key d)"

text \<open>
  Lines 30 to 41 for \<^verbatim>\<open>module_name\<close> and 46 to 61 for \<^verbatim>\<open>class_name\<close>:
  when the value popped from the configuration is \<^verbatim>\<open>None\<close> the name is popped
  from the defaults, and a missing key is a \<^verbatim>\<open>KeyError\<close>; otherwise the entry of
  the defaults is popped and not used. The result is the name and the defaults left.
\<close>

definition name_or_default :: "string \<Rightarrow> pyval \<Rightarrow> dict \<Rightarrow> error + pyval \<times> dict" where
  "name_or_default key popped config_defaults =
     (if popped = VNone then
        (case map_of config_defaults key of
           None \<Rightarrow> Inl (KeyError key)
         | Some v \<Rightarrow> Inr (v, AList.delete key config_defaults))
      else Inr (popped, AList.delete key config_defaults))"

text \<open>\<^verbatim>\<open>d.update(other)\<close>.\<close>

definition dict_update :: "dict \<Rightarrow> dict \<Rightarrow> dict" where
  "dict_update d other = fold (\<lambda>(k, v). AList.update k v) other d"

text \<open>
  Lines 67 to 82, for a runtime environment that is not \<^verbatim>\<open>None\<close>. The set
  \<^verbatim>\<open>missing_args\<close> is visited in the order of the parameter list; Python leaves
  the order of a set open, and the keys added are distinct, so the mapping built is
  the same for every order.
\<close>

definition add_runtime_environment :: "string list \<Rightarrow> dict \<Rightarrow> dict \<Rightarrow> dict" where
  "add_runtime_environment argspec runtime_environment config_with_defaults =
     (let missing_args =
            filter (\<lambda>a. map_of config_with_defaults a = None) (remdups argspec);
          found =
            concat (map (\<lambda>missing_arg.
                           case map_of runtime_environment missing_arg of
                             Some v \<Rightarrow> [(missing_arg, v)]
                           | None \<Rightarrow> [])
                        missing_args);
          updated = dict_update config_with_defaults found
      in if ''runtime_environment'' \<in> set missing_args
         then AList.update ''runtime_environment'' (VDict runtime_environment) updated
         else updated)"

text \<open>
  \<^verbatim>\<open>instantiate_class_from_config\<close>. The function pops from a deep copy of
  \<^verbatim>\<open>config\<close> and from the caller's \<^verbatim>\<open>config_defaults\<close> object itself (or
  from a fresh dictionary when that is \<^verbatim>\<open>None\<close>). A \<^verbatim>\<open>TypeError\<close> of the
  constructor is raised again as a \<^verbatim>\<open>TypeError\<close> with a longer message.
\<close>

definition instantiate_class_from_config ::
  "('c, 'i) collaborators \<Rightarrow> dict \<Rightarrow> dict option \<Rightarrow> dict option \<Rightarrow> 'i outcome"
where
  "instantiate_class_from_config ext config runtime_environment config_defaults =
     (let defaults = (case config_defaults of None \<Rightarrow> [] | Some d \<Rightarrow> d);
          leave = (\<lambda>d evs r.
                     \<lparr>config_after = config,
                      config_defaults_after = map_option (\<lambda>_. d) config_defaults,
                      calls = evs, returned = r\<rparr>);
          (popped_module, config1) = pop_default ''module_name'' config
      in case name_or_default ''module_name'' popped_module defaults of
           Inl e \<Rightarrow> leave defaults [] (Inl e)
         | Inr (module_name, defaults1) \<Rightarrow>
             (case verify_dynamic_loading_support ext module_name of
                Some e \<Rightarrow> leave defaults1 [VerifyCall module_name] (Inl e)
              | None \<Rightarrow>
                  (let (popped_class, config2) = pop_default ''class_name'' config1;
                       evs1 = VerifyCall module_name
                                # (if popped_class = VNone then [LogWarning] else [])
                   in case name_or_default ''class_name'' popped_class defaults1 of
                        Inl e \<Rightarrow> leave defaults1 evs1 (Inl e)
                      | Inr (class_name, defaults2) \<Rightarrow>
                          (let evs2 = evs1 @ [LoadClassCall class_name module_name]
                           in case load_class ext class_name module_name of
                                Inl e \<Rightarrow> leave defaults2 evs2 (Inl e)
                              | Inr cls \<Rightarrow>
                                  (let merged = dict_update defaults2 config2;
                                       config_with_defaults =
                                         (case runtime_environment of
                                            None \<Rightarrow> merged
                                          | Some rt \<Rightarrow>
                                              add_runtime_environment
                                                (drop 1 (getfullargspec_init ext cls))
                                                rt merged)
                                   in leave defaults2
                                        (evs2 @ [ConstructCall config_with_defaults])
                                        (call_class ext cls config_with_defaults))))))"

text \<open>
  The name the instantiator is to use under a key, in the words of the specification
  with a value \<^verbatim>\<open>None\<close> counted as no value: the value of the configuration
  when it has one, otherwise the value of the defaults; \<open>None\<close> when neither
  supplies it. It is compared with what the function does.
\<close>

definition supplied_name :: "string \<Rightarrow> dict \<Rightarrow> dict \<Rightarrow> pyval option" where
  "supplied_name key config config_defaults =
     (case map_of config key of
        Some v \<Rightarrow> if v = VNone then map_of config_defaults key else Some v
      | None \<Rightarrow> map_of config_defaults key)"

text \<open>
  A loader for the examples: every module is supported, every class has the given
  parameter list, and the instance built is the keyword arguments it was built from.
\<close>

definition recording_class :: "string list \<Rightarrow> (string list, dict) collaborators" where
  "recording_class params =
     \<lparr>verify_dynamic_loading_support = (\<lambda>_. None),
      load_class = (\<lambda>_ _. Inr params),
      getfullargspec_init = (\<lambda>c. c),
      call_class = (\<lambda>_ kwargs. Inr kwargs)\<rparr>"

section \<open>Properties of the placeholder finder\<close>

lemma brace_body_Some:
  "brace_body s = Some n \<Longrightarrow> n < length s \<and> s ! n = CHR ''}''"
proof (induction s arbitrary: n)
  case Nil
  then show ?case by simp
next
  case (Cons c cs)
  then show ?case by (auto split: if_splits)
qed

lemma brace_body_append:
  "CHR ''}'' \<notin> set body \<Longrightarrow> CHR 0x0A \<notin> set body \<Longrightarrow>
   brace_body (body @ CHR ''}'' # rest) = Some (length body)"
  by (induction body) auto

lemma match_brace_bounds: "match_brace s = Some n \<Longrightarrow> 3 \<le> n \<and> n \<le> length s"
  by (auto simp: match_brace_def split: list.splits if_splits dest!: brace_body_Some)

lemma match_bare_bounds: "match_bare s = Some n \<Longrightarrow> 2 \<le> n \<and> n \<le> length s"
proof -
  assume a: "match_bare s = Some n"
  then obtain c d ds where s: "s = c # d # ds" and n: "n = 2 + length (takeWhile is_name_char ds)"
    by (auto simp: match_bare_def split: list.splits if_splits)
  have "length (takeWhile is_name_char ds) \<le> length ds"
    by (rule length_takeWhile_le)
  with s n show ?thesis by simp
qed

lemma match_at_bounds: "match_at s = Some n \<Longrightarrow> 2 \<le> n \<and> n \<le> length s"
  using match_brace_bounds [of s n] match_bare_bounds [of s n]
  by (auto simp: match_at_def split: option.splits)

lemma match_at_head:
  "match_at s = Some n \<Longrightarrow>
   \<exists>x rest. s = CHR ''$'' # x # rest \<and> (x = CHR ''{'' \<or> is_name_start x)"
  by (auto simp: match_at_def match_brace_def match_bare_def split: option.splits list.splits if_splits)

lemma finditer_spans:
  "(a, b) \<in> set (finditer pos s) \<Longrightarrow>
   pos \<le> a \<and> a < b \<and> b \<le> pos + length s \<and> match_at (drop (a - pos) s) = Some (b - a)"
proof (induction pos s rule: finditer.induct)
  case (1 pos)
  then show ?case by simp
next
  case (2 pos c rest)
  show ?case
  proof (cases "match_at (c # rest)")
    case None
    with 2 have "(a, b) \<in> set (finditer (pos + 1) rest)" by simp
    from "2.IH"(1) [OF None this] show ?thesis
      by (auto simp: Suc_diff_le drop_Cons')
  next
    case (Some n)
    note bounds = match_at_bounds [OF Some]
    from 2 Some have "(a, b) = (pos, pos + n) \<or> (a, b) \<in> set (finditer (pos + n) (drop (n - 1) rest))"
      by simp
    then show ?thesis
    proof
      assume "(a, b) = (pos, pos + n)"
      with Some bounds show ?thesis by simp
    next
      assume "(a, b) \<in> set (finditer (pos + n) (drop (n - 1) rest))"
      from "2.IH"(2) [OF Some this] bounds
      have h: "pos + n \<le> a" "a < b" "b \<le> pos + n + length (drop (n - 1) rest)"
        "match_at (drop (a - (pos + n)) (drop (n - 1) rest)) = Some (b - a)"
        by auto
      have "drop (a - (pos + n)) (drop (n - 1) rest) = drop (a - pos) (c # rest)"
        using h(1) bounds by (simp add: drop_Cons' )
      with h bounds show ?thesis by auto
    qed
  qed
qed

lemma finditer_sorted:
  "sorted_wrt (\<lambda>x y. snd x \<le> fst y) (finditer pos s)"
proof (induction pos s rule: finditer.induct)
  case (1 pos)
  then show ?case by simp
next
  case (2 pos c rest)
  show ?case
  proof (cases "match_at (c # rest)")
    case None
    with "2.IH"(1) show ?thesis by simp
  next
    case (Some n)
    have "\<forall>y \<in> set (finditer (pos + n) (drop (n - 1) rest)). pos + n \<le> fst y"
      using finditer_spans by fastforce
    with "2.IH"(2) [OF Some] Some show ?thesis by simp
  qed
qed


lemma candidate_span:
  assumes "c \<in> set (find_substitution_candidates t)"
  shows "start c < end_offset c" and "end_offset c \<le> length t"
    and "match c = take (end_offset c - start c) (drop (start c) t)"
    and "match_at (drop (start c) t) = Some (end_offset c - start c)"
proof -
  from assms obtain a b where ab: "(a, b) \<in> set (finditer 0 t)"
    and c: "c = \<lparr>match = take (b - a) (drop a t),
                   clean_match = remove_char (CHR ''}'')
                     (remove_char (CHR ''{'') (remove_char (CHR ''$'') (take (b - a) (drop a t)))),
                   start = a, end_offset = b\<rparr>"
    by (auto simp: find_substitution_candidates_def Let_def)
  from finditer_spans [OF ab] c
  show "start c < end_offset c" and "end_offset c \<le> length t"
    and "match c = take (end_offset c - start c) (drop (start c) t)"
    and "match_at (drop (start c) t) = Some (end_offset c - start c)"
    by simp_all
qed

lemma candidates_in_order:
  "sorted_wrt (\<lambda>a b. end_offset a \<le> start b) (find_substitution_candidates t)"
proof -
  have "sorted_wrt (\<lambda>x y. snd x \<le> fst y) (finditer 0 t)"
    by (rule finditer_sorted)
  then show ?thesis
    by (simp add: find_substitution_candidates_def sorted_wrt_map case_prod_unfold Let_def)
qed

lemma candidate_head:
  assumes "c \<in> set (find_substitution_candidates t)"
  shows "\<exists>x rest. match c = CHR ''$'' # x # rest \<and> (x = CHR ''{'' \<or> is_name_start x)"
proof -
  note sp = candidate_span [OF assms]
  from match_at_head [OF sp(4)] obtain x rest
    where d: "drop (start c) t = CHR ''$'' # x # rest" and x: "x = CHR ''{'' \<or> is_name_start x"
    by blast
  from match_at_bounds [OF sp(4)] obtain k where k: "end_offset c - start c = Suc (Suc k)"
    by (metis Suc_diff_le add_2_eq_Suc' diff_Suc_Suc le_add_diff_inverse2 numeral_2_eq_2)
  from sp(3) d k have "match c = CHR ''$'' # x # take k rest" by simp
  with x show ?thesis by blast
qed

lemma digit_not_name_start: "x \<in> set ''0123456789'' \<Longrightarrow> \<not> is_name_start x \<and> x \<noteq> CHR ''{''"
  by (auto simp: is_name_start_def)

lemma brace_form_candidate:
  assumes "CHR ''}'' \<notin> set body" and "CHR 0x0A \<notin> set body"
  shows "find_substitution_candidates (''${'' @ body @ ''}'') =
         [\<lparr>match = ''${'' @ body @ ''}'',
           clean_match = filter (\<lambda>x. x \<noteq> CHR ''$'' \<and> x \<noteq> CHR ''{'') body,
           start = 0, end_offset = length body + 3\<rparr>]"
proof -
  have m: "match_at (CHR ''$'' # CHR ''{'' # body @ ''}'') = Some (length body + 3)"
    using brace_body_append [OF assms, of "[]"] by (simp add: match_at_def match_brace_def)
  have f: "finditer 0 (CHR ''$'' # CHR ''{'' # body @ ''}'') = [(0, length body + 3)]"
    using m by simp
  have "filter (\<lambda>x. x \<noteq> CHR ''}'') (filter (\<lambda>x. x \<noteq> CHR ''{'') (filter (\<lambda>x. x \<noteq> CHR ''$'') body))
           = filter (\<lambda>x. x \<noteq> CHR ''$'' \<and> x \<noteq> CHR ''{'') body"
    using assms(1) by (induction body) auto
  with f show ?thesis
    by (simp add: find_substitution_candidates_def remove_char_def)
qed

text \<open>
  Claim C9. The finder yields nothing for \<^verbatim>\<open>$1abc\<close>, one candidate with the clean
  name \<^verbatim>\<open>1abc\<close> for \<^verbatim>\<open>${1abc}\<close>, and nothing for the empty string. Every
  candidate begins with a dollar sign followed by an opening brace or by a letter or
  underscore, never by a digit. A brace form is accepted whatever its body is, as long
  as the body has no closing brace and no line feed. The candidates lie inside the
  template, each carries the text of its span, and they come from left to right
  without overlap.
\<close>

theorem C9_placeholder_detection:
  "find_substitution_candidates ''$1abc'' = []
   \<and> find_substitution_candidates ''${1abc}'' =
       [\<lparr>match = ''${1abc}'', clean_match = ''1abc'', start = 0, end_offset = 7\<rparr>]
   \<and> find_substitution_candidates [] = []
   \<and> (\<forall>c \<in> set (find_substitution_candidates t).
         \<exists>x rest. match c = CHR ''$'' # x # rest \<and> x \<notin> set ''0123456789''
                   \<and> (x = CHR ''{'' \<or> is_name_start x))
   \<and> (CHR ''}'' \<notin> set body \<and> CHR 0x0A \<notin> set body \<longrightarrow>
        find_substitution_candidates (''${'' @ body @ ''}'') =
          [\<lparr>match = ''${'' @ body @ ''}'',
            clean_match = filter (\<lambda>x. x \<noteq> CHR ''$'' \<and> x \<noteq> CHR ''{'') body,
            start = 0, end_offset = length body + 3\<rparr>])
   \<and> (\<forall>c \<in> set (find_substitution_candidates t).
         start c < end_offset c \<and> end_offset c \<le> length t
         \<and> match c = take (end_offset c - start c) (drop (start c) t))
   \<and> sorted_wrt (\<lambda>a b. end_offset a \<le> start b) (find_substitution_candidates t)"
proof (intro conjI)
  show "find_substitution_candidates ''$1abc'' = []"
    by (simp add: find_substitution_candidates_def match_at_def match_brace_def
        match_bare_def is_name_start_def)
  show "find_substitution_candidates ''${1abc}'' =
       [\<lparr>match = ''${1abc}'', clean_match = ''1abc'', start = 0, end_offset = 7\<rparr>]"
    by (simp add: find_substitution_candidates_def match_at_def match_brace_def
        remove_char_def)
  show "find_substitution_candidates [] = []"
    by (simp add: find_substitution_candidates_def)
  show "\<forall>c \<in> set (find_substitution_candidates t).
         \<exists>x rest. match c = CHR ''$'' # x # rest \<and> x \<notin> set ''0123456789''
                   \<and> (x = CHR ''{'' \<or> is_name_start x)"
    using candidate_head digit_not_name_start by blast
  show "CHR ''}'' \<notin> set body \<and> CHR 0x0A \<notin> set body \<longrightarrow>
        find_substitution_candidates (''${'' @ body @ ''}'') =
          [\<lparr>match = ''${'' @ body @ ''}'',
            clean_match = filter (\<lambda>x. x \<noteq> CHR ''$'' \<and> x \<noteq> CHR ''{'') body,
            start = 0, end_offset = length body + 3\<rparr>]"
    using brace_form_candidate by blast
  show "\<forall>c \<in> set (find_substitution_candidates t).
         start c < end_offset c \<and> end_offset c \<le> length t
         \<and> match c = take (end_offset c - start c) (drop (start c) t)"
    using candidate_span by blast
  show "sorted_wrt (\<lambda>a b. end_offset a \<le> start b) (find_substitution_candidates t)"
    by (rule candidates_in_order)
qed

theorem C9_placeholder_detection_witness:
  "CHR ''}'' \<notin> set ''c d'' \<and> CHR 0x0A \<notin> set ''c d''
   \<and> find_substitution_candidates ''${c d}'' =
        [\<lparr>match = ''${c d}'', clean_match = ''c d'', start = 0, end_offset = 6\<rparr>]
   \<and> sorted_wrt (\<lambda>a b. end_offset a \<le> start b) (find_substitution_candidates ''${c d}'')"
proof -
  have b: "CHR ''}'' \<notin> set ''c d'' \<and> CHR 0x0A \<notin> set ''c d''" by simp
  from C9_placeholder_detection [of "''${c d}''" "''c d''"] b
  have f: "find_substitution_candidates ''${c d}'' =
        [\<lparr>match = ''${c d}'', clean_match = ''c d'', start = 0, end_offset = 6\<rparr>]"
    and s: "sorted_wrt (\<lambda>a b. end_offset a \<le> start b)
              (find_substitution_candidates ''${c d}'')"
    by simp_all
  from b f s show ?thesis by simp
qed

section \<open>Properties of the substitution in one string\<close>

lemma loop_Nil: "substitution_loop env d [] t = Some (Inr (VStr t))"
  by (subst substitution_loop.simps) simp

lemma loop_env:
  "getenv_truthy env (clean_match c) = Some ev \<Longrightarrow>
   substitution_loop env d (c # q) t = substitution_loop env d q (splice_str t c ev)"
  by (subst substitution_loop.simps) simp

lemma loop_store:
  "getenv_truthy env (clean_match c) = None \<Longrightarrow> d (clean_match c) = Some (VStr s) \<Longrightarrow>
   substitution_loop env d (c # q) t =
   substitution_loop env d (find_substitution_candidates (splice_str t c s)) (splice_str t c s)"
  by (subst substitution_loop.simps) (simp add: splice_value_def)

lemma loop_not_str:
  "getenv_truthy env (clean_match c) = None \<Longrightarrow> d (clean_match c) = Some v \<Longrightarrow>
   \<forall>s. v \<noteq> VStr s \<Longrightarrow> substitution_loop env d (c # q) t = Some (Inl TypeError)"
  by (subst substitution_loop.simps) (simp add: splice_value_def split: pyval.splits)

lemma loop_missing:
  "getenv_truthy env (clean_match c) = None \<Longrightarrow> d (clean_match c) = None \<Longrightarrow>
   substitution_loop env d (c # q) t = Some (Inl (MissingConfigVariableError (clean_match c)))"
  by (subst substitution_loop.simps) simp





lemma substitute_single_env:
  assumes "find_substitution_candidates t = [c]" and "getenv_truthy env (clean_match c) = Some ev"
  shows "substitute_config_variable env d (VStr t) = Some (Inr (VStr (splice_str t c ev)))"
  using assms by (simp add: substitute_config_variable_def loop_Nil)


lemma substitute_single_not_str:
  assumes "find_substitution_candidates t = [c]" and "getenv_truthy env (clean_match c) = None"
    and "d (clean_match c) = Some v" and "\<forall>s. v \<noteq> VStr s"
  shows "substitute_config_variable env d (VStr t) =
         Some (if match c = t then Inr v else Inl UnsupportedSubstitution)"
  using assms by (cases v) (simp_all add: substitute_config_variable_def)

lemma substitute_single_missing:
  assumes "find_substitution_candidates t = [c]" and "getenv_truthy env (clean_match c) = None"
    and "d (clean_match c) = None"
  shows "substitute_config_variable env d (VStr t) =
         Some (Inl (MissingConfigVariableError (clean_match c)))"
  using assms by (simp add: substitute_config_variable_def)

lemma substitute_many:
  assumes "find_substitution_candidates t = cs" and "length cs \<noteq> 1"
  shows "substitute_config_variable env d (VStr t) = substitution_loop env d cs t"
  using assms by (cases cs; cases "tl cs") (auto simp: substitute_config_variable_def)

lemma whole_match_iff:
  assumes "c \<in> set (find_substitution_candidates t)"
  shows "match c = t \<longleftrightarrow> start c = 0 \<and> end_offset c = length t"
proof
  note sp = candidate_span [OF assms]
  assume m: "match c = t"
  from sp(3) have "length (match c) = end_offset c - start c"
    using sp(1,2) by simp
  with m have "length t = end_offset c - start c" by simp
  with sp(1,2) show "start c = 0 \<and> end_offset c = length t" by arith
next
  note sp = candidate_span [OF assms]
  assume "start c = 0 \<and> end_offset c = length t"
  with sp(3) show "match c = t" by simp
qed

lemma loop_env_prefix:
  assumes "\<forall>c \<in> set pre. getenv_truthy env (clean_match c) \<noteq> None"
    and "getenv_truthy env (clean_match c) = None" and "d (clean_match c) = None"
  shows "substitution_loop env d (pre @ c # post) t =
         Some (Inl (MissingConfigVariableError (clean_match c)))"
  using assms
proof (induction pre arbitrary: t)
  case Nil
  then show ?case by (simp add: loop_missing)
next
  case (Cons p pre)
  then obtain ev where "getenv_truthy env (clean_match p) = Some ev" by auto
  with Cons show ?case by (simp add: loop_env)
qed

text \<open>
  Claim C1. The template \<^verbatim>\<open>${A}\<close> has one candidate, so it takes the
  single-candidate branch: the stored value \<^verbatim>\<open>${B}\<close> is spliced in and, the
  re-scan of that branch being commented out, the loop that follows finds its queue
  empty. With the store \<^verbatim>\<open>{"A": "${B}", "B": "final"}\<close> and an empty environment
  the function returns \<^verbatim>\<open>${B}\<close>, not \<^verbatim>\<open>final\<close>.
\<close>

theorem C1_single_candidate_not_expanded:
  "substitute_config_variable Map.empty
     [''A'' \<mapsto> VStr ''${B}'', ''B'' \<mapsto> VStr ''final''] (VStr ''${A}'')
   = Some (Inr (VStr ''${B}''))"
  by (simp add: substitute_config_variable_def loop_Nil getenv_truthy_def splice_str_def
      find_substitution_candidates_def match_at_def match_brace_def remove_char_def)

text \<open>
  Claim C2. In the many-candidates branch a splice from the environment keeps the
  queued candidates with the offsets they had before the splice. For \<^verbatim>\<open>$A $B\<close>
  with \<^verbatim>\<open>A=xxxxx\<close> and \<^verbatim>\<open>B=y\<close> in the environment the second candidate is
  spliced at its old span 3 to 5 of the longer string, and the function returns
  \<^verbatim>\<open>xxxy $B\<close> where \<^verbatim>\<open>xxxxx y\<close> is the string with both placeholders replaced.
\<close>

theorem C2_stale_offsets_after_environment_splice:
  "substitute_config_variable [''A'' \<mapsto> ''xxxxx'', ''B'' \<mapsto> ''y''] Map.empty
     (VStr ''$A $B'')
   = Some (Inr (VStr ''xxxy $B''))"
  by (simp add: substitute_config_variable_def loop_Nil loop_env getenv_truthy_def
      splice_str_def find_substitution_candidates_def match_at_def match_brace_def
      match_bare_def is_name_start_def is_name_char_def remove_char_def)

text \<open>
  Claim C3. For a template with exactly one candidate whose name is not set in the
  environment (unset, or set to the empty string) and is stored with a value that is
  not a string: the stored value is returned as it is when the matched text is the
  whole template, and the unsupported-substitution exception is raised otherwise.
  The matched text is the whole template exactly when the span starts at 0 and ends
  at the length of the template, so when there is no text before or after it.
\<close>

theorem C3_non_string_value:
  assumes "find_substitution_candidates t = [c]"
    and "env (clean_match c) = None \<or> env (clean_match c) = Some []"
    and "d (clean_match c) = Some v" and "\<forall>s. v \<noteq> VStr s"
  shows "substitute_config_variable env d (VStr t) =
           Some (if match c = t then Inr v else Inl UnsupportedSubstitution)
         \<and> (match c = t \<longleftrightarrow> start c = 0 \<and> end_offset c = length t)"
proof -
  from assms(2) have "getenv_truthy env (clean_match c) = None"
    by (auto simp: getenv_truthy_def)
  then have "substitute_config_variable env d (VStr t) =
           Some (if match c = t then Inr v else Inl UnsupportedSubstitution)"
    by (rule substitute_single_not_str [where d = d, OF assms(1) _ assms(3) assms(4)])
  with whole_match_iff [of c t] assms(1)
  show ?thesis by simp
qed

theorem C3_non_string_value_witness:
  "substitute_config_variable Map.empty [''PORT'' \<mapsto> VInt 5432] (VStr ''${PORT}'')
     = Some (Inr (VInt 5432))
   \<and> substitute_config_variable Map.empty [''PORT'' \<mapsto> VInt 5432] (VStr ''a-${PORT}'')
     = Some (Inl UnsupportedSubstitution)"
proof -
  let ?c = "\<lparr>match = ''${PORT}'', clean_match = ''PORT'', start = 0, end_offset = 7\<rparr>"
  let ?c2 = "\<lparr>match = ''${PORT}'', clean_match = ''PORT'', start = 2, end_offset = 9\<rparr>"
  have f: "find_substitution_candidates ''${PORT}'' = [?c]"
    by (simp add: find_substitution_candidates_def match_at_def match_brace_def remove_char_def)
  have f2: "find_substitution_candidates ''a-${PORT}'' = [?c2]"
    by (simp add: find_substitution_candidates_def match_at_def match_brace_def
        match_bare_def remove_char_def)
  have "substitute_config_variable Map.empty [''PORT'' \<mapsto> VInt 5432] (VStr ''${PORT}'')
     = Some (Inr (VInt 5432))"
    using C3_non_string_value [OF f, of Map.empty "[''PORT'' \<mapsto> VInt 5432]" "VInt 5432"]
    by simp
  moreover have "substitute_config_variable Map.empty [''PORT'' \<mapsto> VInt 5432] (VStr ''a-${PORT}'')
     = Some (Inl UnsupportedSubstitution)"
    using C3_non_string_value [OF f2, of Map.empty "[''PORT'' \<mapsto> VInt 5432]" "VInt 5432"]
    by simp
  ultimately show ?thesis by simp
qed





lemma loop_state_run:
  "loop_state env d n q t = Some (q', t') \<Longrightarrow>
   substitution_loop env d q t = substitution_loop env d q' t'"
proof (induction n arbitrary: q t)
  case 0
  then show ?case by simp
next
  case (Suc n)
  from Suc.prems obtain c queue where q: "q = c # queue"
    by (cases q) auto
  show ?case
  proof (cases "getenv_truthy env (clean_match c)")
    case (Some ev)
    with Suc.prems q have "loop_state env d n queue (splice_str t c ev) = Some (q', t')"
      by simp
    from Suc.IH [OF this] Some q show ?thesis by (simp add: loop_env)
  next
    case None
    with Suc.prems q obtain v sp where v: "d (clean_match c) = Some v"
      and sp: "splice_value t c v = Inr sp"
      and st: "loop_state env d n (find_substitution_candidates sp) sp = Some (q', t')"
      by (auto split: option.splits sum.splits)
    from Suc.IH [OF st] have "substitution_loop env d (find_substitution_candidates sp) sp
        = substitution_loop env d q' t'" .
    with None v sp q show ?thesis
      by (subst substitution_loop.simps) simp
  qed
qed

lemma loop_missing_reached:
  assumes run: "substitution_loop env d q t = Some (Inl (MissingConfigVariableError n))"
  shows "\<exists>k c q' t'. loop_state env d k q t = Some (c # q', t') \<and> clean_match c = n
           \<and> getenv_truthy env n = None \<and> d n = None"
proof -
  let ?P = "\<lambda>(e::environ) (s::config_variables) (q::candidate list) (t::string)
              (r::error + pyval).
              e = env \<longrightarrow> s = d \<longrightarrow> r = Inl (MissingConfigVariableError n) \<longrightarrow>
              (\<exists>k c q' t'. loop_state env d k q t = Some (c # q', t') \<and> clean_match c = n
                 \<and> getenv_truthy env n = None \<and> d n = None)"
  have "?P env d q t (Inl (MissingConfigVariableError n))"
  proof (rule substitution_loop.raw_induct [where P = ?P, OF _ run], goal_cases)
    case (1 loop e s q t r)
    show ?case
    proof (intro impI)
      assume e: "e = env" and s: "s = d" and r: "r = Inl (MissingConfigVariableError n)"
      show "\<exists>k c q' t'. loop_state env d k q t = Some (c # q', t') \<and> clean_match c = n
                 \<and> getenv_truthy env n = None \<and> d n = None"
      proof (cases q)
        case Nil
        with 1(2) r show ?thesis by simp
      next
        case (Cons c queue)
        show ?thesis
        proof (cases "getenv_truthy env (clean_match c)")
          case (Some ev)
          with 1(2) Cons e have "loop e s queue (splice_str t c ev) = Some r" by simp
          from 1(1) [OF this] e s r obtain k c' q' t' where
            "loop_state env d k queue (splice_str t c ev) = Some (c' # q', t')"
            "clean_match c' = n" "getenv_truthy env n = None" "d n = None"
            by auto
          with Some Cons have "loop_state env d (Suc k) q t = Some (c' # q', t')
              \<and> clean_match c' = n \<and> getenv_truthy env n = None \<and> d n = None"
            by simp
          then show ?thesis by blast
        next
          case None
          show ?thesis
          proof (cases "d (clean_match c)")
            case dNone: None
            with 1(2) Cons None e s r have "clean_match c = n" by simp
            with dNone None Cons have "loop_state env d 0 q t = Some (c # queue, t)
              \<and> clean_match c = n \<and> getenv_truthy env n = None \<and> d n = None"
              by simp
            then show ?thesis by blast
          next
            case (Some v)
            show ?thesis
            proof (cases "splice_value t c v")
              case (Inl err)
              with 1(2) Cons None Some e s r show ?thesis
                by (cases v) (simp_all add: splice_value_def)
            next
              case (Inr sp)
              with 1(2) Cons None Some e s
              have "loop e s (find_substitution_candidates sp) sp = Some r" by simp
              from 1(1) [OF this] e s r obtain k c' q' t' where
                "loop_state env d k (find_substitution_candidates sp) sp = Some (c' # q', t')"
                "clean_match c' = n" "getenv_truthy env n = None" "d n = None"
                by auto
              with None Some Inr Cons have "loop_state env d (Suc k) q t = Some (c' # q', t')
                  \<and> clean_match c' = n \<and> getenv_truthy env n = None \<and> d n = None"
                by simp
              then show ?thesis by blast
            qed
          qed
        qed
      qed
    qed
  qed
  then show ?thesis by simp
qed

lemma substitute_missing_reached:
  assumes "substitute_config_variable env d (VStr t)
             = Some (Inl (MissingConfigVariableError n))"
  shows "\<exists>k c q t'. loop_state env d k (find_substitution_candidates t) t = Some (c # q, t')
           \<and> clean_match c = n \<and> getenv_truthy env n = None \<and> d n = None"
proof (cases "length (find_substitution_candidates t) = 1")
  case False
  with assms have "substitution_loop env d (find_substitution_candidates t) t
      = Some (Inl (MissingConfigVariableError n))"
    using substitute_many [of t "find_substitution_candidates t" env d] by simp
  then show ?thesis by (rule loop_missing_reached)
next
  case True
  then obtain c where c: "find_substitution_candidates t = [c]"
    by (cases "find_substitution_candidates t") auto
  have "clean_match c = n \<and> getenv_truthy env n = None \<and> d n = None"
  proof (cases "getenv_truthy env (clean_match c)")
    case (Some ev)
    with assms c show ?thesis by (simp add: substitute_single_env)
  next
    case None
    show ?thesis
    proof (cases "d (clean_match c)")
      case dNone: None
      with assms c None show ?thesis by (simp add: substitute_single_missing)
    next
      case (Some w)
      with assms c None show ?thesis
        by (cases w) (simp_all add: substitute_config_variable_def loop_Nil split: if_splits)
    qed
  qed
  with c have "loop_state env d 0 (find_substitution_candidates t) t = Some (c # [], t)
      \<and> clean_match c = n \<and> getenv_truthy env n = None \<and> d n = None"
    by simp
  then show ?thesis by blast
qed

lemma substitute_reached_missing:
  assumes "length (find_substitution_candidates t) \<noteq> 1 \<or> k = 0"
    and "loop_state env d k (find_substitution_candidates t) t = Some (c # q, t')"
    and "getenv_truthy env (clean_match c) = None" and "d (clean_match c) = None"
  shows "substitute_config_variable env d (VStr t)
           = Some (Inl (MissingConfigVariableError (clean_match c)))"
proof (cases "length (find_substitution_candidates t) = 1")
  case False
  then have "substitute_config_variable env d (VStr t)
      = substitution_loop env d (find_substitution_candidates t) t"
    using substitute_many [of t "find_substitution_candidates t" env d] by simp
  also have "\<dots> = substitution_loop env d (c # q) t'"
    using assms(2) by (rule loop_state_run)
  also have "\<dots> = Some (Inl (MissingConfigVariableError (clean_match c)))"
    using assms(3,4) by (rule loop_missing)
  finally show ?thesis .
next
  case True
  with assms(1) have "k = 0" by simp
  with assms(2) have "find_substitution_candidates t = [c]" using True
    by (cases "find_substitution_candidates t") auto
  with assms(3,4) show ?thesis by (simp add: substitute_single_missing)
qed


text \<open>
  Claim C6, as stated, fails: in \<^verbatim>\<open>${A}$U}\<close> the placeholder \<^verbatim>\<open>$U\<close> has the
  clean name \<^verbatim>\<open>U\<close>, which is neither set nor stored, and the call returns
  \<^verbatim>\<open>ok\<close> without an exception. The stored value of \<^verbatim>\<open>A\<close> is spliced in, and
  the re-scan finds the one candidate \<^verbatim>\<open>${x$U}\<close> with the stored name \<^verbatim>\<open>xU\<close>;
  the candidate \<^verbatim>\<open>$U\<close> is never looked up.
\<close>

theorem C6_counterexample:
  "map clean_match (find_substitution_candidates ''${A}$U}'') = [''A'', ''U'']
   \<and> map_of [(''A'', VStr ''${x''), (''xU'', VStr ''ok'')] ''U'' = None
   \<and> substitute_config_variable (map_of [])
         (map_of [(''A'', VStr ''${x''), (''xU'', VStr ''ok'')]) (VStr ''${A}$U}'')
       = Some (Inr (VStr ''ok''))"
proof -
  let ?d = "map_of [(''A'', VStr ''${x''), (''xU'', VStr ''ok'')]"
  have f: "find_substitution_candidates ''${A}$U}''
      = [\<lparr>match = ''${A}'', clean_match = ''A'', start = 0, end_offset = 4\<rparr>,
         \<lparr>match = ''$U'', clean_match = ''U'', start = 4, end_offset = 6\<rparr>]"
    by (simp add: find_substitution_candidates_def match_at_def match_brace_def
        match_bare_def is_name_start_def is_name_char_def remove_char_def)
  have g: "find_substitution_candidates ''${x$U}''
      = [\<lparr>match = ''${x$U}'', clean_match = ''xU'', start = 0, end_offset = 6\<rparr>]"
    by (simp add: find_substitution_candidates_def match_at_def match_brace_def
        remove_char_def)
  have h: "find_substitution_candidates ''ok'' = []"
    by (simp add: find_substitution_candidates_def match_at_def match_brace_def
        match_bare_def)
  have "substitute_config_variable (map_of []) ?d (VStr ''${A}$U}'')
      = substitution_loop (map_of []) ?d (find_substitution_candidates ''${A}$U}'') ''${A}$U}''"
    by (rule substitute_many [OF refl]) (simp add: f)
  also have "\<dots> = substitution_loop (map_of []) ?d
                     (find_substitution_candidates ''${x$U}'') ''${x$U}''"
    by (simp add: f loop_store [where s = "''${x''"] getenv_truthy_def splice_str_def)
  also have "\<dots> = substitution_loop (map_of []) ?d (find_substitution_candidates ''ok'') ''ok''"
    by (simp add: g loop_store [where s = "''ok''"] getenv_truthy_def splice_str_def)
  also have "\<dots> = Some (Inr (VStr ''ok''))"
    by (simp add: h loop_Nil)
  finally show ?thesis by (simp add: f)
qed

text \<open>
  Claim C6, amended. The call raises \<^verbatim>\<open>MissingConfigVariableError\<close> with a clean
  name exactly for the placeholders it comes to look up. Whenever the candidate to be
  looked up next (the single candidate of a template, or the head of the queue after
  any number of iterations of the many-candidates loop) has a clean name that is
  neither set to a non-empty value in the environment nor a key of the store, the
  call returns with that exception and that clean name. Conversely, whenever the call
  raises the exception, the name it carries is neither set nor stored, and it is the
  clean name of a candidate the call came to look up. In particular a candidate of
  the template is reached, and reported when unresolved, if all candidates before it
  were resolved from the environment. Substituting \<^verbatim>\<open>${UNKNOWN}\<close> with nothing
  set and nothing stored fails with the name \<^verbatim>\<open>UNKNOWN\<close>.
\<close>

theorem C6_missing_config_variable:
  "((length (find_substitution_candidates t) \<noteq> 1 \<or> k = 0)
      \<and> loop_state env d k (find_substitution_candidates t) t = Some (c # q, t')
      \<and> getenv_truthy env (clean_match c) = None \<and> d (clean_match c) = None \<longrightarrow>
    substitute_config_variable env d (VStr t)
      = Some (Inl (MissingConfigVariableError (clean_match c))))
   \<and> (substitute_config_variable env d (VStr t)
        = Some (Inl (MissingConfigVariableError n)) \<longrightarrow>
      getenv_truthy env n = None \<and> d n = None
      \<and> (\<exists>j a r s. loop_state env d j (find_substitution_candidates t) t = Some (a # r, s)
            \<and> clean_match a = n))
   \<and> (find_substitution_candidates t = cs \<and> i < length cs
      \<and> (\<forall>j<i. getenv_truthy env (clean_match (cs ! j)) \<noteq> None)
      \<and> getenv_truthy env (clean_match (cs ! i)) = None
      \<and> d (clean_match (cs ! i)) = None \<longrightarrow>
    substitute_config_variable env d (VStr t)
      = Some (Inl (MissingConfigVariableError (clean_match (cs ! i)))))
   \<and> substitute_config_variable Map.empty Map.empty (VStr ''${UNKNOWN}'')
       = Some (Inl (MissingConfigVariableError ''UNKNOWN''))"
proof (intro conjI impI)
  assume "(length (find_substitution_candidates t) \<noteq> 1 \<or> k = 0)
      \<and> loop_state env d k (find_substitution_candidates t) t = Some (c # q, t')
      \<and> getenv_truthy env (clean_match c) = None \<and> d (clean_match c) = None"
  then show "substitute_config_variable env d (VStr t)
      = Some (Inl (MissingConfigVariableError (clean_match c)))"
    using substitute_reached_missing [of t k env d c q t'] by blast
next
  assume a: "substitute_config_variable env d (VStr t)
        = Some (Inl (MissingConfigVariableError n))"
  from substitute_missing_reached [OF a]
  show "getenv_truthy env n = None" and "d n = None"
    and "\<exists>j a r s. loop_state env d j (find_substitution_candidates t) t = Some (a # r, s)
            \<and> clean_match a = n"
    by blast+
next
  assume a: "find_substitution_candidates t = cs \<and> i < length cs
      \<and> (\<forall>j<i. getenv_truthy env (clean_match (cs ! j)) \<noteq> None)
      \<and> getenv_truthy env (clean_match (cs ! i)) = None
      \<and> d (clean_match (cs ! i)) = None"
  show "substitute_config_variable env d (VStr t)
      = Some (Inl (MissingConfigVariableError (clean_match (cs ! i))))"
  proof (cases "length cs = 1")
    case True
    with a have "cs = [cs ! i]" by (cases cs) auto
    with a show ?thesis by (simp add: substitute_single_missing)
  next
    case False
    with a have s: "substitute_config_variable env d (VStr t) = substitution_loop env d cs t"
      by (simp add: substitute_many)
    from a have split: "cs = take i cs @ cs ! i # drop (Suc i) cs"
      by (simp add: id_take_nth_drop)
    from a have pre: "\<forall>c \<in> set (take i cs). getenv_truthy env (clean_match c) \<noteq> None"
      by (auto simp: in_set_conv_nth)
    from a have "substitution_loop env d (take i cs @ cs ! i # drop (Suc i) cs) t
      = Some (Inl (MissingConfigVariableError (clean_match (cs ! i))))"
      using pre by (intro loop_env_prefix) auto
    with split s show ?thesis by simp
  qed
next
  show "substitute_config_variable Map.empty Map.empty (VStr ''${UNKNOWN}'')
       = Some (Inl (MissingConfigVariableError ''UNKNOWN''))"
    by (simp add: substitute_config_variable_def getenv_truthy_def
        find_substitution_candidates_def match_at_def match_brace_def remove_char_def)
qed

theorem C6_missing_config_variable_witness:
  "loop_state (map_of []) (map_of [(''A'', VStr ''x'')]) (Suc 0)
       (find_substitution_candidates ''$A-$U'') ''$A-$U''
     = Some ([\<lparr>match = ''$U'', clean_match = ''U'', start = 2, end_offset = 4\<rparr>], ''x-$U'')
   \<and> length (find_substitution_candidates ''$A-$U'') = 2
   \<and> substitute_config_variable (map_of []) (map_of [(''A'', VStr ''x'')]) (VStr ''$A-$U'')
       = Some (Inl (MissingConfigVariableError ''U''))"
proof -
  let ?d = "map_of [(''A'', VStr ''x'')]"
  let ?u = "\<lparr>match = ''$U'', clean_match = ''U'', start = 2, end_offset = 4\<rparr>"
  have f: "find_substitution_candidates ''$A-$U''
      = [\<lparr>match = ''$A'', clean_match = ''A'', start = 0, end_offset = 2\<rparr>,
         \<lparr>match = ''$U'', clean_match = ''U'', start = 3, end_offset = 5\<rparr>]"
    by (simp add: find_substitution_candidates_def match_at_def match_brace_def
        match_bare_def is_name_start_def is_name_char_def remove_char_def)
  have g: "find_substitution_candidates ''x-$U'' = [?u]"
    by (simp add: find_substitution_candidates_def match_at_def match_brace_def
        match_bare_def is_name_start_def is_name_char_def remove_char_def)
  have st: "loop_state (map_of []) ?d (Suc 0) (find_substitution_candidates ''$A-$U'') ''$A-$U''
      = Some ([?u], ''x-$U'')"
    by (simp add: f g getenv_truthy_def splice_value_def splice_str_def)
  have len: "length (find_substitution_candidates ''$A-$U'') = 2"
    by (simp add: f)
  have "substitute_config_variable (map_of []) ?d (VStr ''$A-$U'')
       = Some (Inl (MissingConfigVariableError ''U''))"
    using C6_missing_config_variable
      [of "''$A-$U''" "Suc 0" "map_of []" ?d ?u "[]" "''x-$U''", THEN conjunct1] st len
    by (simp add: getenv_truthy_def)
  with st len show ?thesis by simp
qed

section \<open>Properties of the substitution in a nested structure\<close>

text \<open>
  When the traversal returns a value, a dictionary keeps its keys in their order and
  a list keeps its length.
\<close>

lemma substitute_items_keys:
  "substitute_items env d kvs = Some (Inr kvs') \<Longrightarrow> map fst kvs' = map fst kvs"
proof (induction kvs arbitrary: kvs')
  case Nil
  then show ?case by simp
next
  case (Cons kv kvs)
  obtain k v where kv: "kv = (k, v)" by (cases kv)
  from Cons.prems kv obtain v' rest where
    "substitute_items env d kvs = Some (Inr rest)" and "kvs' = (k, v') # rest"
    by (auto split: option.splits sum.splits)
  with Cons.IH show ?case using kv by simp
qed

lemma substitute_elements_length:
  "substitute_elements env d vs = Some (Inr vs') \<Longrightarrow> length vs' = length vs"
proof (induction vs arbitrary: vs')
  case Nil
  then show ?case by simp
next
  case (Cons v vs)
  from Cons.prems obtain v' rest where
    "substitute_elements env d vs = Some (Inr rest)" and "vs' = v' # rest"
    by (auto split: option.splits sum.splits)
  with Cons.IH show ?case by simp
qed

lemma substitute_all_example:
  "substitute_all_config_variables Map.empty [''A'' \<mapsto> VStr ''x'']
     (VDict [(''k'', VList [VStr ''${A}'', VDict [(''k2'', VStr ''${A}'')]])])
   = Some (Inr (VDict [(''k'', VList [VStr ''x'', VDict [(''k2'', VStr ''x'')]])]))"
  by (simp add: substitute_config_variable_def loop_Nil getenv_truthy_def splice_str_def
      find_substitution_candidates_def match_at_def match_brace_def remove_char_def)

text \<open>
  Claim C8. A leaf that is neither \<^verbatim>\<open>None\<close> nor a string reaches
  \<^verbatim>\<open>re.finditer\<close>, which raises \<^verbatim>\<open>TypeError\<close>: an integer or a boolean is not
  returned unchanged, and a dictionary that holds one, such as
  \<^verbatim>\<open>{"port": 5432}\<close>, makes the whole traversal raise.
\<close>

theorem C8_scalar_leaf_raises:
  "substitute_all_config_variables env d (VInt n) = Some (Inl TypeError)
   \<and> substitute_all_config_variables env d (VBool b) = Some (Inl TypeError)
   \<and> substitute_all_config_variables Map.empty Map.empty (VDict [(''port'', VInt 5432)])
       = Some (Inl TypeError)"
  by (simp add: substitute_config_variable_def)

section \<open>Properties of the class instantiator\<close>

lemma delete_as_filter: "AList.delete k d = filter (\<lambda>kv. fst kv \<notin> {k}) d"
  by (induction d) auto

lemma delete_subset: "set (AList.delete k d) \<subseteq> set d"
  by (auto simp: delete_as_filter)

lemma delete_keeps: "(a, v) \<in> set d \<Longrightarrow> a \<noteq> k \<Longrightarrow> (a, v) \<in> set (AList.delete k d)"
  by (auto simp: delete_as_filter)

lemma delete_other: "a \<noteq> k \<Longrightarrow> map_of (AList.delete k d) a = map_of d a"
  by (simp add: delete_conv)

lemma dict_update_Nil: "dict_update d [] = d"
  by (simp add: dict_update_def)

lemma dict_update_Cons:
  "dict_update d ((a, b) # other) = dict_update (AList.update a b d) other"
  by (simp add: dict_update_def)

lemma dict_update_absent:
  "k \<notin> fst ` set other \<Longrightarrow> map_of (dict_update d other) k = map_of d k"
proof (induction other arbitrary: d)
  case Nil
  then show ?case by (simp add: dict_update_Nil)
next
  case (Cons kv other)
  obtain a b where kv: "kv = (a, b)" by (cases kv)
  from Cons.prems kv have "k \<noteq> a" "k \<notin> fst ` set other" by auto
  with Cons.IH [of "AList.update a b d"] kv show ?case
    by (simp add: dict_update_Cons update_conv')
qed

lemma dict_update_present:
  "distinct (map fst other) \<Longrightarrow> (k, v) \<in> set other \<Longrightarrow>
   map_of (dict_update d other) k = Some v"
proof (induction other arbitrary: d)
  case Nil
  then show ?case by simp
next
  case (Cons kv other)
  obtain a b where kv: "kv = (a, b)" by (cases kv)
  show ?case
  proof (cases "(k, v) = (a, b)")
    case True
    with Cons.prems(1) kv have "k \<notin> fst ` set other" by auto
    from dict_update_absent [OF this, of "AList.update a b d"] True kv show ?thesis
      by (simp add: dict_update_Cons update_conv')
  next
    case False
    with Cons.prems kv have "(k, v) \<in> set other" "distinct (map fst other)" by auto
    with Cons.IH [of "AList.update a b d"] kv show ?thesis by (simp add: dict_update_Cons)
  qed
qed

lemma dict_update_None:
  "map_of (dict_update d other) k = None \<longleftrightarrow> map_of d k = None \<and> map_of other k = None"
proof (induction other arbitrary: d)
  case Nil
  then show ?case by (simp add: dict_update_Nil)
next
  case (Cons kv other)
  obtain a b where kv: "kv = (a, b)" by (cases kv)
  from Cons.IH [of "AList.update a b d"] kv show ?case
    by (simp add: dict_update_Cons update_conv')
qed


lemma found_keys:
  "map fst (concat (map (\<lambda>a. case map_of rt a of Some v \<Rightarrow> [(a, v)] | None \<Rightarrow> []) xs))
   = filter (\<lambda>a. map_of rt a \<noteq> None) xs"
  by (induction xs) (auto split: option.splits)

lemma found_members:
  "(p, v) \<in> set (concat (map (\<lambda>a. case map_of rt a of Some v \<Rightarrow> [(a, v)] | None \<Rightarrow> []) xs))
   \<longleftrightarrow> p \<in> set xs \<and> map_of rt p = Some v"
  by (induction xs) (auto split: option.splits)

lemma add_runtime_environment_missing:
  assumes "p \<in> set argspec" and "p \<noteq> ''runtime_environment''"
    and "map_of merged p = None" and "map_of rt p = Some v"
  shows "map_of (add_runtime_environment argspec rt merged) p = Some v"
proof -
  let ?missing = "filter (\<lambda>a. map_of merged a = None) (remdups argspec)"
  let ?found = "concat (map (\<lambda>a. case map_of rt a of Some v \<Rightarrow> [(a, v)] | None \<Rightarrow> []) ?missing)"
  have d: "distinct (map fst ?found)" by (simp add: found_keys)
  from assms have "(p, v) \<in> set ?found" by (simp add: found_members)
  from dict_update_present [OF d this] have "map_of (dict_update merged ?found) p = Some v" .
  with assms(2) show ?thesis
    by (simp add: add_runtime_environment_def Let_def update_conv')
qed

lemma add_runtime_environment_whole:
  assumes "''runtime_environment'' \<in> set argspec"
    and "map_of merged ''runtime_environment'' = None"
  shows "map_of (add_runtime_environment argspec rt merged) ''runtime_environment''
         = Some (VDict rt)"
  using assms by (simp add: add_runtime_environment_def Let_def update_conv')

lemma add_runtime_environment_present:
  assumes "map_of merged p = Some v"
  shows "map_of (add_runtime_environment argspec rt merged) p = Some v"
proof -
  let ?missing = "filter (\<lambda>a. map_of merged a = None) (remdups argspec)"
  let ?found = "concat (map (\<lambda>a. case map_of rt a of Some v \<Rightarrow> [(a, v)] | None \<Rightarrow> []) ?missing)"
  from assms have m: "p \<notin> set ?missing" by simp
  have "fst ` set ?found \<subseteq> set ?missing"
    using found_keys [of rt ?missing] by (metis filter_is_subset list.set_map)
  with m have "p \<notin> fst ` set ?found" by blast
  from dict_update_absent [OF this] assms
  have u: "map_of (dict_update merged ?found) p = Some v" by simp
  from m have "''runtime_environment'' \<in> set ?missing \<Longrightarrow> p \<noteq> ''runtime_environment''"
    by blast
  with u show ?thesis
    by (auto simp: add_runtime_environment_def Let_def update_conv')
qed

lemma instantiate_unfold:
  "instantiate_class_from_config ext config rt cd =
     (let defaults = (case cd of None \<Rightarrow> [] | Some d \<Rightarrow> d);
          defaults1 = AList.delete ''module_name'' defaults;
          defaults2 = AList.delete ''class_name'' defaults1;
          warn = (if map_of config ''class_name'' = None
                     \<or> map_of config ''class_name'' = Some VNone
                  then [LogWarning] else []);
          merged = dict_update defaults2
                     (AList.delete ''class_name'' (AList.delete ''module_name'' config))
      in case supplied_name ''module_name'' config defaults of
           None \<Rightarrow>
             \<lparr>config_after = config, config_defaults_after = cd, calls = [],
              returned = Inl (KeyError ''module_name'')\<rparr>
         | Some mn \<Rightarrow>
             (case verify_dynamic_loading_support ext mn of
                Some e \<Rightarrow>
                  \<lparr>config_after = config,
                   config_defaults_after = map_option (\<lambda>_. defaults1) cd,
                   calls = [VerifyCall mn], returned = Inl e\<rparr>
              | None \<Rightarrow>
                  (case supplied_name ''class_name'' config defaults of
                     None \<Rightarrow>
                       \<lparr>config_after = config,
                        config_defaults_after = map_option (\<lambda>_. defaults1) cd,
                        calls = VerifyCall mn # warn,
                        returned = Inl (KeyError ''class_name'')\<rparr>
                   | Some cn \<Rightarrow>
                       (case load_class ext cn mn of
                          Inl e \<Rightarrow>
                            \<lparr>config_after = config,
                             config_defaults_after = map_option (\<lambda>_. defaults2) cd,
                             calls = VerifyCall mn # warn @ [LoadClassCall cn mn],
                             returned = Inl e\<rparr>
                        | Inr cls \<Rightarrow>
                            (let kw = (case rt of
                                         None \<Rightarrow> merged
                                       | Some r \<Rightarrow>
                                           add_runtime_environment
                                             (drop 1 (getfullargspec_init ext cls)) r merged)
                             in \<lparr>config_after = config,
                                 config_defaults_after = map_option (\<lambda>_. defaults2) cd,
                                 calls = VerifyCall mn # warn
                                           @ [LoadClassCall cn mn, ConstructCall kw],
                                 returned = call_class ext cls kw\<rparr>)))))"
  by (cases cd)
    (auto simp: instantiate_class_from_config_def pop_default_def name_or_default_def
      supplied_name_def Let_def delete_conv split: option.splits sum.splits)

lemma recording_class_simps:
  "verify_dynamic_loading_support (recording_class ps) m = None"
  "load_class (recording_class ps) c m = Inr ps"
  "getfullargspec_init (recording_class ps) cls = cls"
  "call_class (recording_class ps) cls kw = Inr kw"
  by (simp_all add: recording_class_def)

text \<open>
  Claim C10. After every call, whatever the collaborators do and however the call
  ends, the caller's \<^verbatim>\<open>config\<close> mapping is what it was; and the caller's
  \<^verbatim>\<open>config_defaults\<close> mapping has lost nothing but entries under
  \<^verbatim>\<open>module_name\<close> and \<^verbatim>\<open>class_name\<close>: it has no new entry, and every entry
  under another key is still there with its value.
\<close>

theorem C10_mutation_frame:
  "config_after (instantiate_class_from_config ext config rt cd) = config
   \<and> (cd = None \<longrightarrow>
        config_defaults_after (instantiate_class_from_config ext config rt cd) = None)
   \<and> (cd = Some d \<longrightarrow>
        (\<exists>d'. config_defaults_after (instantiate_class_from_config ext config rt cd) = Some d'
           \<and> set d' \<subseteq> set d
           \<and> (\<forall>k v. (k, v) \<in> set d \<and> k \<noteq> ''module_name'' \<and> k \<noteq> ''class_name''
                  \<longrightarrow> (k, v) \<in> set d')
           \<and> (\<forall>k. k \<noteq> ''module_name'' \<and> k \<noteq> ''class_name''
                  \<longrightarrow> map_of d' k = map_of d k)))"
proof -
  let ?out = "instantiate_class_from_config ext config rt cd"
  let ?d = "case cd of None \<Rightarrow> [] | Some d \<Rightarrow> d"
  let ?d1 = "AList.delete ''module_name'' ?d"
  let ?d2 = "AList.delete ''class_name'' ?d1"
  have c: "config_after ?out = config"
    by (simp add: instantiate_unfold Let_def split: option.splits sum.splits)
  have cases: "config_defaults_after ?out = cd
      \<or> config_defaults_after ?out = map_option (\<lambda>_. ?d1) cd
      \<or> config_defaults_after ?out = map_option (\<lambda>_. ?d2) cd"
    by (simp add: instantiate_unfold Let_def split: option.splits sum.splits)
  have n: "cd = None \<longrightarrow> config_defaults_after ?out = None"
    using cases by auto
  have s: "cd = Some d \<longrightarrow>
        (\<exists>d'. config_defaults_after ?out = Some d'
           \<and> set d' \<subseteq> set d
           \<and> (\<forall>k v. (k, v) \<in> set d \<and> k \<noteq> ''module_name'' \<and> k \<noteq> ''class_name''
                  \<longrightarrow> (k, v) \<in> set d')
           \<and> (\<forall>k. k \<noteq> ''module_name'' \<and> k \<noteq> ''class_name''
                  \<longrightarrow> map_of d' k = map_of d k))"
  proof
    assume cd: "cd = Some d"
    from cases cd have "config_defaults_after ?out = Some d
      \<or> config_defaults_after ?out = Some (AList.delete ''module_name'' d)
      \<or> config_defaults_after ?out
           = Some (AList.delete ''class_name'' (AList.delete ''module_name'' d))"
      by simp
    then show "\<exists>d'. config_defaults_after ?out = Some d'
           \<and> set d' \<subseteq> set d
           \<and> (\<forall>k v. (k, v) \<in> set d \<and> k \<noteq> ''module_name'' \<and> k \<noteq> ''class_name''
                  \<longrightarrow> (k, v) \<in> set d')
           \<and> (\<forall>k. k \<noteq> ''module_name'' \<and> k \<noteq> ''class_name''
                  \<longrightarrow> map_of d' k = map_of d k)"
    proof (elim disjE)
      assume "config_defaults_after ?out = Some d"
      then show ?thesis by simp
    next
      assume "config_defaults_after ?out = Some (AList.delete ''module_name'' d)"
      then show ?thesis using delete_subset [of "''module_name''" d]
        by (auto simp: delete_keeps delete_other)
    next
      assume "config_defaults_after ?out
           = Some (AList.delete ''class_name'' (AList.delete ''module_name'' d))"
      moreover have "set (AList.delete ''class_name'' (AList.delete ''module_name'' d)) \<subseteq> set d"
        using delete_subset [of "''class_name''" "AList.delete ''module_name'' d"]
          delete_subset [of "''module_name''" d] by (rule subset_trans)
      moreover have "\<forall>k v. (k, v) \<in> set d \<and> k \<noteq> ''module_name'' \<and> k \<noteq> ''class_name''
                  \<longrightarrow> (k, v) \<in> set (AList.delete ''class_name'' (AList.delete ''module_name'' d))"
        by (simp add: delete_keeps)
      moreover have "\<forall>k. k \<noteq> ''module_name'' \<and> k \<noteq> ''class_name''
                  \<longrightarrow> map_of (AList.delete ''class_name'' (AList.delete ''module_name'' d)) k
                        = map_of d k"
        by (simp add: delete_other)
      ultimately show ?thesis by simp
    qed
  qed
  from c n s show ?thesis by blast
qed

theorem C10_mutation_frame_witness:
  "config_after (instantiate_class_from_config (recording_class [''self''])
       [(''class_name'', VStr ''Foo''), (''x'', VInt 1)] None
       (Some [(''module_name'', VStr ''pkg.mod''), (''class_name'', VStr ''Bar''),
              (''y'', VInt 2)]))
     = [(''class_name'', VStr ''Foo''), (''x'', VInt 1)]
   \<and> config_defaults_after (instantiate_class_from_config (recording_class [''self''])
       [(''class_name'', VStr ''Foo''), (''x'', VInt 1)] None
       (Some [(''module_name'', VStr ''pkg.mod''), (''class_name'', VStr ''Bar''),
              (''y'', VInt 2)]))
     = Some [(''y'', VInt 2)]
   \<and> map_of [(''y'', VInt 2)] ''y''
     = map_of [(''module_name'', VStr ''pkg.mod''), (''class_name'', VStr ''Bar''),
               (''y'', VInt 2)] ''y''"
proof -
  let ?cfg = "[(''class_name'', VStr ''Foo''), (''x'', VInt 1)]"
  let ?d = "[(''module_name'', VStr ''pkg.mod''), (''class_name'', VStr ''Bar''),
              (''y'', VInt 2)]"
  let ?out = "instantiate_class_from_config (recording_class [''self'']) ?cfg None (Some ?d)"
  have a: "config_defaults_after ?out = Some [(''y'', VInt 2)]"
    by (simp add: instantiate_class_from_config_def pop_default_def name_or_default_def
        recording_class_def dict_update_def Let_def)
  from C10_mutation_frame [of "recording_class [''self'']" ?cfg None "Some ?d" ?d] a
  show ?thesis by simp
qed


text \<open>
  Claim C7, as stated, fails for a configuration that holds \<^verbatim>\<open>module_name\<close> with
  the value \<^verbatim>\<open>None\<close>: the key is present, and the module is taken from the
  defaults all the same.
\<close>

theorem C7_counterexample:
  "map_of [(''module_name'', VNone), (''class_name'', VStr ''Foo'')] ''module_name''
     = Some VNone
   \<and> calls (instantiate_class_from_config (recording_class [''self''])
        [(''module_name'', VNone), (''class_name'', VStr ''Foo'')] None
        (Some [(''module_name'', VStr ''pkg.mod'')]))
     = [VerifyCall (VStr ''pkg.mod''), LoadClassCall (VStr ''Foo'') (VStr ''pkg.mod''),
        ConstructCall []]"
  by (simp add: instantiate_class_from_config_def pop_default_def name_or_default_def
      recording_class_def dict_update_def Let_def)

text \<open>
  Claim C7, amended. The module name (and likewise the class name) is the value of
  \<^verbatim>\<open>config\<close> when that holds the key with a value other than \<^verbatim>\<open>None\<close>,
  otherwise the value of \<^verbatim>\<open>config_defaults\<close>, and the call raises
  \<^verbatim>\<open>KeyError\<close> when neither supplies it. The module name is looked up in every
  call, and afterwards the caller's defaults have no \<^verbatim>\<open>module_name\<close> entry; the
  class name is looked up once the module name was found and the module verified,
  and then the defaults have no \<^verbatim>\<open>class_name\<close> entry either. The loader is called
  with the two names found.
\<close>

theorem C7_name_resolution:
  "(let out = instantiate_class_from_config ext config rt cd;
        defaults = (case cd of None \<Rightarrow> [] | Some d \<Rightarrow> d)
    in (supplied_name ''module_name'' config defaults = None \<longrightarrow>
          returned out = Inl (KeyError ''module_name'') \<and> calls out = [])
     \<and> (supplied_name ''module_name'' config defaults = Some mn \<longrightarrow>
          (\<exists>rest. calls out = VerifyCall mn # rest))
     \<and> (supplied_name ''module_name'' config defaults = Some mn
          \<and> verify_dynamic_loading_support ext mn = None
          \<and> supplied_name ''class_name'' config defaults = None \<longrightarrow>
          returned out = Inl (KeyError ''class_name'')
          \<and> (\<forall>cn' mn'. LoadClassCall cn' mn' \<notin> set (calls out)))
     \<and> (supplied_name ''module_name'' config defaults = Some mn
          \<and> verify_dynamic_loading_support ext mn = None
          \<and> supplied_name ''class_name'' config defaults = Some cn \<longrightarrow>
          LoadClassCall cn mn \<in> set (calls out))
     \<and> (\<forall>d'. config_defaults_after out = Some d' \<longrightarrow> map_of d' ''module_name'' = None)
     \<and> (\<forall>d'. supplied_name ''module_name'' config defaults = Some mn
          \<and> verify_dynamic_loading_support ext mn = None
          \<and> config_defaults_after out = Some d' \<longrightarrow> map_of d' ''class_name'' = None))"
proof -
  let ?out = "instantiate_class_from_config ext config rt cd"
  let ?d = "case cd of None \<Rightarrow> [] | Some d \<Rightarrow> d"
  have 1: "supplied_name ''module_name'' config ?d = None \<longrightarrow>
          returned ?out = Inl (KeyError ''module_name'') \<and> calls ?out = []"
    by (simp add: instantiate_unfold Let_def)
  have 2: "supplied_name ''module_name'' config ?d = Some mn \<longrightarrow>
          (\<exists>rest. calls ?out = VerifyCall mn # rest)"
    by (simp add: instantiate_unfold Let_def split: option.splits sum.splits)
  have 3: "supplied_name ''module_name'' config ?d = Some mn
          \<and> verify_dynamic_loading_support ext mn = None
          \<and> supplied_name ''class_name'' config ?d = None \<longrightarrow>
          returned ?out = Inl (KeyError ''class_name'')
          \<and> (\<forall>cn' mn'. LoadClassCall cn' mn' \<notin> set (calls ?out))"
    by (simp add: instantiate_unfold Let_def)
  have 4: "supplied_name ''module_name'' config ?d = Some mn
          \<and> verify_dynamic_loading_support ext mn = None
          \<and> supplied_name ''class_name'' config ?d = Some cn \<longrightarrow>
          LoadClassCall cn mn \<in> set (calls ?out)"
    by (simp add: instantiate_unfold Let_def split: sum.splits)
  have m: "supplied_name ''module_name'' config ?d = None \<Longrightarrow> map_of ?d ''module_name'' = None"
    by (simp add: supplied_name_def split: option.splits if_splits)
  have 5: "\<forall>d'. config_defaults_after ?out = Some d' \<longrightarrow> map_of d' ''module_name'' = None"
  proof (cases cd)
    case None
    then show ?thesis by (simp add: instantiate_unfold Let_def split: option.splits sum.splits)
  next
    case (Some d)
    with m show ?thesis
      by (auto simp: instantiate_unfold Let_def delete_conv split: option.splits sum.splits)
  qed
  have c: "supplied_name ''class_name'' config ?d = None \<Longrightarrow> map_of ?d ''class_name'' = None"
    by (simp add: supplied_name_def split: option.splits if_splits)
  have 6: "\<forall>d'. supplied_name ''module_name'' config ?d = Some mn
          \<and> verify_dynamic_loading_support ext mn = None
          \<and> config_defaults_after ?out = Some d' \<longrightarrow> map_of d' ''class_name'' = None"
  proof (cases cd)
    case None
    then show ?thesis by (simp add: instantiate_unfold Let_def split: option.splits sum.splits)
  next
    case (Some d)
    with c show ?thesis
      by (auto simp: instantiate_unfold Let_def delete_conv split: option.splits sum.splits)
  qed
  from 1 2 3 4 5 6 show ?thesis unfolding Let_def by blast
qed

theorem C7_name_resolution_witness:
  "supplied_name ''module_name'' [(''class_name'', VStr ''Foo'')]
       [(''module_name'', VStr ''pkg.mod'')] = Some (VStr ''pkg.mod'')
   \<and> supplied_name ''class_name'' [(''class_name'', VStr ''Foo'')]
       [(''module_name'', VStr ''pkg.mod'')] = Some (VStr ''Foo'')
   \<and> LoadClassCall (VStr ''Foo'') (VStr ''pkg.mod'')
       \<in> set (calls (instantiate_class_from_config (recording_class [''self''])
              [(''class_name'', VStr ''Foo'')] None
              (Some [(''module_name'', VStr ''pkg.mod'')])))
   \<and> config_defaults_after (instantiate_class_from_config (recording_class [''self''])
              [(''class_name'', VStr ''Foo'')] None
              (Some [(''module_name'', VStr ''pkg.mod'')])) = Some []"
proof -
  let ?cfg = "[(''class_name'', VStr ''Foo'')]"
  let ?d = "[(''module_name'', VStr ''pkg.mod'')]"
  let ?out = "instantiate_class_from_config (recording_class [''self'']) ?cfg None (Some ?d)"
  have s: "supplied_name ''module_name'' ?cfg ?d = Some (VStr ''pkg.mod'')"
    "supplied_name ''class_name'' ?cfg ?d = Some (VStr ''Foo'')"
    by (simp_all add: supplied_name_def)
  have v: "verify_dynamic_loading_support (recording_class [''self'']) (VStr ''pkg.mod'') = None"
    by (simp add: recording_class_def)
  have a: "config_defaults_after ?out = Some []"
    by (simp add: instantiate_class_from_config_def pop_default_def name_or_default_def
        recording_class_def dict_update_def Let_def)
  from C7_name_resolution [of "recording_class [''self'']" ?cfg None "Some ?d"
      "VStr ''pkg.mod''" "VStr ''Foo''"] s v
  have "LoadClassCall (VStr ''Foo'') (VStr ''pkg.mod'') \<in> set (calls ?out)"
    by (simp add: Let_def)
  with s a show ?thesis by simp
qed

text \<open>
  Claim C5, as stated, fails in part (b): the constructor declares
  \<^verbatim>\<open>runtime_environment\<close>, the configuration already holds a value under that
  key, and the constructor receives that value, not the runtime-environment mapping.
\<close>

theorem C5_counterexample:
  "calls (instantiate_class_from_config (recording_class [''self'', ''runtime_environment''])
        [(''module_name'', VStr ''pkg.mod''), (''class_name'', VStr ''Foo''),
         (''runtime_environment'', VInt 1)]
        (Some [(''conn'', VInt 2)]) None)
     = [VerifyCall (VStr ''pkg.mod''), LoadClassCall (VStr ''Foo'') (VStr ''pkg.mod''),
        ConstructCall [(''runtime_environment'', VInt 1)]]"
  by (simp add: instantiate_class_from_config_def pop_default_def name_or_default_def
      recording_class_def dict_update_def add_runtime_environment_def Let_def)

text \<open>
  Claim C5, amended. With a runtime-environment mapping: (a) a declared parameter
  other than \<^verbatim>\<open>runtime_environment\<close> that is absent from the merged arguments and
  present in the mapping is passed with the mapping's value; (b) when the constructor
  declares \<^verbatim>\<open>runtime_environment\<close> and the merged arguments have no entry under
  that key, the whole mapping is passed under it, also when the mapping has an entry
  of that name; an argument that the merged configuration and defaults already hold
  keeps its value. The constructor is called with exactly these arguments, built from
  the defaults and the configuration without \<^verbatim>\<open>module_name\<close> and
  \<^verbatim>\<open>class_name\<close>, and a key is absent from the merged arguments exactly when it is
  absent from both.
\<close>

theorem C5_runtime_environment:
  "(p \<in> set argspec \<and> p \<noteq> ''runtime_environment'' \<and> map_of merged p = None
      \<and> map_of rt p = Some v \<longrightarrow>
      map_of (add_runtime_environment argspec rt merged) p = Some v)
   \<and> (''runtime_environment'' \<in> set argspec \<and> map_of merged ''runtime_environment'' = None
      \<longrightarrow> map_of (add_runtime_environment argspec rt merged) ''runtime_environment''
            = Some (VDict rt))
   \<and> (map_of merged q = Some w \<longrightarrow>
      map_of (add_runtime_environment argspec rt merged) q = Some w)
   \<and> (ConstructCall kw \<in> set (calls (instantiate_class_from_config ext config (Some rt) cd))
      \<longrightarrow> (\<exists>cn mn cls.
             load_class ext cn mn = Inr cls
           \<and> kw = add_runtime_environment (drop 1 (getfullargspec_init ext cls)) rt
                    (dict_update
                       (AList.delete ''class_name'' (AList.delete ''module_name''
                          (case cd of None \<Rightarrow> [] | Some d \<Rightarrow> d)))
                       (AList.delete ''class_name'' (AList.delete ''module_name'' config)))))
   \<and> (map_of (dict_update d0 other) p = None
        \<longleftrightarrow> map_of d0 p = None \<and> map_of other p = None)"
proof (intro conjI impI)
  assume "p \<in> set argspec \<and> p \<noteq> ''runtime_environment'' \<and> map_of merged p = None
      \<and> map_of rt p = Some v"
  then show "map_of (add_runtime_environment argspec rt merged) p = Some v"
    by (simp add: add_runtime_environment_missing)
next
  assume "''runtime_environment'' \<in> set argspec \<and> map_of merged ''runtime_environment'' = None"
  then show "map_of (add_runtime_environment argspec rt merged) ''runtime_environment''
            = Some (VDict rt)"
    by (simp add: add_runtime_environment_whole)
next
  assume "map_of merged q = Some w"
  then show "map_of (add_runtime_environment argspec rt merged) q = Some w"
    by (rule add_runtime_environment_present)
next
  assume "ConstructCall kw
            \<in> set (calls (instantiate_class_from_config ext config (Some rt) cd))"
  then show "\<exists>cn mn cls.
             load_class ext cn mn = Inr cls
           \<and> kw = add_runtime_environment (drop 1 (getfullargspec_init ext cls)) rt
                    (dict_update
                       (AList.delete ''class_name'' (AList.delete ''module_name''
                          (case cd of None \<Rightarrow> [] | Some d \<Rightarrow> d)))
                       (AList.delete ''class_name'' (AList.delete ''module_name'' config)))"
    by (auto simp: instantiate_unfold Let_def split: option.splits sum.splits if_splits)
next
  show "map_of (dict_update d0 other) p = None
        \<longleftrightarrow> map_of d0 p = None \<and> map_of other p = None"
    by (rule dict_update_None)
qed

theorem C5_runtime_environment_witness:
  "''conn'' \<in> set [''conn''] \<and> map_of [] ''conn'' = (None :: pyval option)
   \<and> map_of (add_runtime_environment [''conn''] [(''conn'', VStr ''X'')] []) ''conn''
       = Some (VStr ''X'')
   \<and> calls (instantiate_class_from_config (recording_class [''self'', ''conn''])
        [(''class_name'', VStr ''Foo'')] (Some [(''conn'', VStr ''X'')])
        (Some [(''module_name'', VStr ''pkg.mod'')]))
     = [VerifyCall (VStr ''pkg.mod''), LoadClassCall (VStr ''Foo'') (VStr ''pkg.mod''),
        ConstructCall [(''conn'', VStr ''X'')]]"
proof -
  have "map_of (add_runtime_environment [''conn''] [(''conn'', VStr ''X'')] []) ''conn''
       = Some (VStr ''X'')"
    using C5_runtime_environment [of "''conn''" "[''conn'']" "[]" "[(''conn'', VStr ''X'')]"
        "VStr ''X''", THEN conjunct1]
    by simp
  moreover have "calls (instantiate_class_from_config (recording_class [''self'', ''conn''])
        [(''class_name'', VStr ''Foo'')] (Some [(''conn'', VStr ''X'')])
        (Some [(''module_name'', VStr ''pkg.mod'')]))
     = [VerifyCall (VStr ''pkg.mod''), LoadClassCall (VStr ''Foo'') (VStr ''pkg.mod''),
        ConstructCall [(''conn'', VStr ''X'')]]"
    by (simp add: instantiate_class_from_config_def pop_default_def name_or_default_def
      recording_class_def dict_update_def add_runtime_environment_def Let_def)
  ultimately show ?thesis by simp
qed

end
